theory Spec2Isabelle
  imports Main "HOL-Library.Word" "HOL-Library.AList" "HOL-Library.Multiset"
begin

section \<open>Data of the agent\<close>

text \<open>Go's \<open>uint\<close> on a 64-bit platform. Message ids are only compared, never added.\<close>

type_synonym uint = "64 word"

type_synonym bytes = "8 word list"

text \<open>
  Modelled from the spec: the packages \<open>message\<close> and \<open>packet\<close> are not among the sources.
  The spec gives the message types Request, Notify, Response and Push, and the packet
  kinds Handshake, HandshakeAck, Heartbeat, Data and Kick.
\<close>

datatype msg_type = Request | Notify | Response | Push

datatype packet_type = Handshake | HandshakeAck | Heartbeat | Data | Kick

text \<open>
  Modelled from the spec: package \<open>constants\<close> is not among the sources. The spec gives the
  agent states Start, Handshake, Working and Closed; the errors are those the agent names
  (\<open>ErrBrokenPipe\<close> stands for \<open>errors.NewError(constants.ErrBrokenPipe,
  errors.ErrClientClosedRequest)\<close>), and \<open>ErrOther\<close> is any other error.
\<close>

datatype status = StatusStart | StatusHandshake | StatusWorking | StatusClosed

datatype error =
    ErrBrokenPipe
  | ErrSessionOnNotify
  | ErrCloseClosedSession
  | ErrNotImplemented
  | ErrOther string

text \<open>
  Modelled from the spec: package \<open>relation\<close> is not among the sources. The spec gives
  \<open>relation.Data\<close> as \<open>{sessID: int64, msgID: int}\<close>, the id of the session and the id of
  the client request a call belongs to.
\<close>

record relation_data =
  SessID :: int
  MsgID :: int

text \<open>
  A value stored in the propagate map is an \<open>interface{}\<close>; the agent only asks whether it
  is a string.
\<close>

datatype pvalue = PString string | POther

text \<open>
  How a call ends: it returns a value, it panics, or it stays blocked in a \<open>select\<close> or a
  wait loop. A Go result pair \<open>(v, err)\<close> is a sum, \<open>Inl\<close> the error.
\<close>

datatype 'a outcome = Returns 'a | Panics | Blocks

text \<open>
  The case of a \<open>select\<close> that the scheduler prefers when several are ready: the channel
  operation (a send on \<open>chOrder\<close> or \<open>chSend\<close>, a receive from the ticker), the receive
  from \<open>chDie\<close>, or the receive from the stop channel.
\<close>

datatype select_case = ChanCase | DieCase | StopCase

text \<open>
  \<open>context.Context\<close>, as far as the agent reads it: \<open>nil\<close>, or the value stored under
  \<open>constants.MsgRelationKey\<close> and the one under \<open>constants.PropagateCtxKey\<close>
  (each absent or a map). \<open>ctx_tag\<close> stands for the identity of the context object.
\<close>

record ctx_values =
  ctx_tag :: nat
  MsgRelation :: "(string \<times> relation_data) list option"
  PropagateCtx :: "(string \<times> pvalue) list option"

type_synonym go_context = "ctx_values option"

text \<open>
  Modelled from the spec: \<open>message.Message\<close>, with the fields the agent sets (\<open>Type\<close>,
  \<open>Data\<close>, \<open>Route\<close>, \<open>ID\<close>, \<open>Err\<close>). \<open>pendingWrite\<close> is the agent's own struct; its
  \<open>msg\<close> is a pointer and may be nil.
\<close>

record message =
  msg_Type :: msg_type
  msg_Data :: bytes
  msg_Route :: string
  msg_ID :: uint
  msg_Err :: bool

record pendingWrite =
  pw_ctx :: go_context
  pw_data :: bytes
  pw_err :: "error option"
  pw_msg :: "message option"

text \<open>
  What is observable of the agent besides its fields: log lines, metric reports, the
  closing of a channel, the calls of close callbacks and the calls on the connection.
\<close>

datatype chan_name = ChStopWrite | ChStopOrder | ChStopHeartbeat | ChDie

datatype event =
    LogDebug string
  | LogWarn string
  | LogError string
  | StoreStatus status
  | CloseChan chan_name
  | CallSessionCallback string
  | CallPoolCallback string
  | ReportGauge int
  | ReportClients int
  | ConnWrite bytes
  | ConnClose

text \<open>A close callback is known by its name and by whether calling it panics.\<close>

record callback =
  cb_name :: string
  cb_panics :: bool

record session =
  sess_ID :: int
  sess_UID :: string
  OnCloseCallbacks :: "callback list"

record session_pool =
  SessionCloseCallbacks :: "callback list"
  SessionCount :: int

text \<open>
  \<open>net.Conn\<close>: the agent sees what \<open>Write\<close> and \<open>Close\<close> return; the calls themselves
  are recorded in the trace.
\<close>

record net_conn =
  write_result :: "error option"
  close_result :: "error option"

text \<open>
  \<open>agentImpl\<close>. A channel of \<open>struct{}\<close> that is only ever closed is a flag (closed or
  not); a buffered channel is the list of the items it holds, oldest first. A metrics
  reporter is the result of its \<open>ReportGauge\<close>. \<open>pushDelay\<close> is a Go map, kept here as
  an association list with distinct keys.
\<close>

record agentImpl =
  Session :: session
  sessionPool :: session_pool
  chDie :: bool
  chOrder :: "pendingWrite list"
  chSend :: "pendingWrite list"
  chStopHeartbeat :: bool
  chStopWrite :: bool
  chStopOrder :: bool
  conn :: net_conn
  heartbeatTimeout :: int
  lastAt :: int
  messagesBufferSize :: int
  metricsReporters :: "error option list"
  state :: status
  curMsgID :: uint
  pushDelay :: "(uint \<times> pendingWrite list) list"
  pushDelayMID :: uint
  trace :: "event list"

section \<open>The ordering stage\<close>

text \<open>
  \<open>a.pushDelay[k]\<close> read as a slice: the zero value (\<open>nil\<close>) for a missing key.
\<close>

definition delayed :: "agentImpl \<Rightarrow> uint \<Rightarrow> pendingWrite list" where
  "delayed a k = (case map_of (pushDelay a) k of None \<Rightarrow> [] | Some val \<Rightarrow> val)"

text \<open>
  The closure \<open>send\<close> of \<open>ordered\<close>: \<open>select { case a.chSend <- pWrite: case <-a.chDie: }\<close>.
  While \<open>chDie\<close> is open only the first case can run (it waits until the writer has made
  room), and the item is appended to \<open>chSend\<close>; once \<open>chDie\<close> is closed the item may be
  dropped, and the model drops it. The stage is run here without the writer: over a run,
  \<open>chSend\<close> is the sequence of the items forwarded so far. The debug log lines of the
  stage change nothing and are left out.
\<close>

definition ordered_send :: "pendingWrite \<Rightarrow> agentImpl \<Rightarrow> agentImpl" where
  "ordered_send pWrite a = (if chDie a then a else a\<lparr>chSend := chSend a @ [pWrite]\<rparr>)"

text \<open>
  \<open>if val, ok := a.pushDelay[id]; ok { for _, v := range val { send(v) };
  delete(a.pushDelay, id); a.pushDelayMID = 0 }\<close>
\<close>

definition restore :: "uint \<Rightarrow> agentImpl \<Rightarrow> agentImpl" where
  "restore k a =
     (case map_of (pushDelay a) k of
        None \<Rightarrow> a
      | Some val \<Rightarrow>
          (let a' = fold ordered_send val a
           in a'\<lparr>pushDelay := AList.delete k (pushDelay a'), pushDelayMID := 0\<rparr>))"

text \<open>The loop over the sorted keys, with its \<open>break\<close> at the first key not below \<open>curMsgID\<close>.\<close>

fun restore_old :: "uint list \<Rightarrow> agentImpl \<Rightarrow> agentImpl" where
  "restore_old [] a = a"
| "restore_old (k # keys) a =
     (if curMsgID a \<le> k then a else restore_old keys (restore k a))"

text \<open>The body of the loop of \<open>ordered\<close> for one item \<open>pWrite\<close> whose message is \<open>m\<close>.\<close>

definition ordered_item :: "pendingWrite \<Rightarrow> message \<Rightarrow> agentImpl \<Rightarrow> agentImpl" where
  "ordered_item pWrite m a =
     (if msg_Type m = Push \<and> 0 < msg_ID m \<and> curMsgID a < msg_ID m then
        (let tID = msg_ID m
         in a\<lparr>pushDelay := AList.update tID (delayed a tID @ [pWrite]) (pushDelay a),
              pushDelayMID := tID\<rparr>)
      else if msg_Type m = Push \<and> 0 < pushDelayMID a then
        (let tID = pushDelayMID a
         in a\<lparr>pushDelay := AList.update tID (delayed a tID @ [pWrite]) (pushDelay a)\<rparr>)
      else
        (let a1 = ordered_send pWrite a
         in if msg_Type m = Response then
              (let a2 = restore (msg_ID m) (a1\<lparr>curMsgID := msg_ID m\<rparr>)
               in if pushDelay a2 \<noteq> []
                  then restore_old (sort (map fst (pushDelay a2))) a2
                  else a2)
            else a1))"

text \<open>
  \<open>m := pWrite.msg\<close> followed by \<open>m.Type\<close>: a nil message is a nil dereference, the
  value \<open>None\<close>.
\<close>

definition ordered_step :: "pendingWrite \<Rightarrow> agentImpl \<Rightarrow> agentImpl option" where
  "ordered_step pWrite a =
     (case pw_msg pWrite of None \<Rightarrow> None | Some m \<Rightarrow> Some (ordered_item pWrite m a))"

text \<open>The stage on the items it receives from \<open>chOrder\<close>, in the order it receives them.\<close>

fun ordered_run :: "pendingWrite list \<Rightarrow> agentImpl \<Rightarrow> agentImpl option" where
  "ordered_run [] a = Some a"
| "ordered_run (pWrite # rest) a =
     (case ordered_step pWrite a of None \<Rightarrow> None | Some a' \<Rightarrow> ordered_run rest a')"

text \<open>
  Notions used to state the properties of the stage: all items held back in \<open>pushDelay\<close>;
  "\<open>p\<close> is forwarded after \<open>r\<close>" on the sequence \<open>out\<close> of forwarded items (\<open>p\<close> does
  not occur before the first \<open>r\<close> and occurs behind it); and the invariant of a run with
  \<open>rest\<close> still to come: \<open>chDie\<close> is open, the keys of \<open>pushDelay\<close> are distinct, and no
  item occurs twice among those forwarded, held back and to come.
\<close>

definition all_delayed :: "agentImpl \<Rightarrow> pendingWrite list" where
  "all_delayed a = concat (map snd (pushDelay a))"

definition forwarded_after :: "pendingWrite \<Rightarrow> pendingWrite \<Rightarrow> pendingWrite list \<Rightarrow> bool" where
  "forwarded_after r p out =
     (p \<notin> set (takeWhile (\<lambda>x. x \<noteq> r) out) \<and> p \<in> set (tl (dropWhile (\<lambda>x. x \<noteq> r) out)))"

definition pipeline_inv :: "agentImpl \<Rightarrow> pendingWrite list \<Rightarrow> bool" where
  "pipeline_inv a rest =
     (\<not> chDie a \<and> distinct (map fst (pushDelay a)) \<and>
      distinct (chSend a @ all_delayed a @ rest))"

section \<open>Status, logging and \<open>select\<close>\<close>

definition GetStatus :: "agentImpl \<Rightarrow> status" where
  "GetStatus a = state a"

definition SetStatus :: "status \<Rightarrow> agentImpl \<Rightarrow> agentImpl" where
  "SetStatus st a = a\<lparr>state := st, trace := trace a @ [StoreStatus st]\<rparr>"

definition emit :: "event \<Rightarrow> agentImpl \<Rightarrow> agentImpl" where
  "emit e a = a\<lparr>trace := trace a @ [e]\<rparr>"

text \<open>
  A \<open>select\<close> without \<open>default\<close>: \<open>rdy\<close> lists the ready cases in source order. With none
  ready the goroutine blocks (\<open>None\<close>); otherwise the preferred case runs if it is ready,
  and some ready case if it is not.
\<close>

definition go_select :: "select_case \<Rightarrow> select_case list \<Rightarrow> select_case option" where
  "go_select pref rdy =
     (case rdy of
        [] \<Rightarrow> None
      | c # _ \<Rightarrow> if pref \<in> set rdy then Some pref else Some c)"

section \<open>Close\<close>

text \<open>The two loops of \<open>onSessionClosed\<close>: a panicking callback ends the loop.\<close>

fun run_callbacks :: "(string \<Rightarrow> event) \<Rightarrow> callback list \<Rightarrow> agentImpl \<Rightarrow> bool \<times> agentImpl" where
  "run_callbacks ev [] a = (False, a)"
| "run_callbacks ev (fn # fns) a =
     (let a' = emit (ev (cb_name fn)) a
      in if cb_panics fn then (True, a') else run_callbacks ev fns a')"

text \<open>
  \<open>onSessionClosed\<close>: the session's callbacks, then the pool's; the deferred \<open>recover\<close>
  turns a panic of either loop into an error log line.
\<close>

definition onSessionClosed :: "session \<Rightarrow> agentImpl \<Rightarrow> agentImpl" where
  "onSessionClosed s a =
     (case run_callbacks CallSessionCallback (OnCloseCallbacks s) a of
        (True, a1) \<Rightarrow> emit (LogError ''pitaya/onSessionClosed'') a1
      | (False, a1) \<Rightarrow>
          (case run_callbacks CallPoolCallback (SessionCloseCallbacks (sessionPool a1)) a1 of
             (True, a2) \<Rightarrow> emit (LogError ''pitaya/onSessionClosed'') a2
           | (False, a2) \<Rightarrow> a2))"

text \<open>\<open>close(ch)\<close>: closing a closed channel panics (\<open>None\<close>).\<close>

definition close_chan :: "chan_name \<Rightarrow> agentImpl \<Rightarrow> agentImpl option" where
  "close_chan c a =
     (case c of
        ChStopWrite \<Rightarrow>
          if chStopWrite a then None else Some (emit (CloseChan c) (a\<lparr>chStopWrite := True\<rparr>))
      | ChStopOrder \<Rightarrow>
          if chStopOrder a then None else Some (emit (CloseChan c) (a\<lparr>chStopOrder := True\<rparr>))
      | ChStopHeartbeat \<Rightarrow>
          if chStopHeartbeat a then None
          else Some (emit (CloseChan c) (a\<lparr>chStopHeartbeat := True\<rparr>))
      | ChDie \<Rightarrow>
          if chDie a then None else Some (emit (CloseChan c) (a\<lparr>chDie := True\<rparr>)))"

text \<open>
  \<open>Close\<close>, run under \<open>closeMutex\<close> and so as one step. The \<open>select\<close> with \<open>default\<close>
  receives from \<open>chDie\<close> exactly when that channel is closed.
\<close>

definition Close :: "agentImpl \<Rightarrow> error option outcome \<times> agentImpl" where
  "Close a =
     (if GetStatus a = StatusClosed then (Returns (Some ErrCloseClosedSession), a)
      else
        (let a1 = emit (LogDebug ''Session closed'') (SetStatus StatusClosed a);
             closed =
               (if chDie a1 then Some a1
                else
                  (case close_chan ChStopWrite a1 of None \<Rightarrow> None | Some a2 \<Rightarrow>
                   (case close_chan ChStopOrder a2 of None \<Rightarrow> None | Some a3 \<Rightarrow>
                    (case close_chan ChStopHeartbeat a3 of None \<Rightarrow> None | Some a4 \<Rightarrow>
                     (case close_chan ChDie a4 of None \<Rightarrow> None | Some a5 \<Rightarrow>
                        Some (onSessionClosed (Session a5) a5))))))
         in case closed of
              None \<Rightarrow> (Panics, a1)
            | Some a6 \<Rightarrow>
                (let a7 = emit (ReportClients (SessionCount (sessionPool a6))) a6
                 in (Returns (close_result (conn a7)), emit ConnClose a7))))"

section \<open>The context helpers (context.go)\<close>

definition GetRelationDataFromContext :: "go_context \<Rightarrow> (string \<times> relation_data) list" where
  "GetRelationDataFromContext ctx =
     (case ctx of
        None \<Rightarrow> []
      | Some c \<Rightarrow> (case MsgRelation c of None \<Rightarrow> [] | Some v \<Rightarrow> v))"

definition GetRelationDataFromContextByUID :: "go_context \<Rightarrow> string \<Rightarrow> relation_data" where
  "GetRelationDataFromContextByUID ctx uid =
     (case ctx of
        None \<Rightarrow> \<lparr>SessID = 0, MsgID = 0\<rparr>
      | Some c \<Rightarrow>
          (case map_of (GetRelationDataFromContext ctx) uid of
             None \<Rightarrow> \<lparr>SessID = 0, MsgID = 0\<rparr>
           | Some d \<Rightarrow> d))"

text \<open>\<open>uint(data.MsgID)\<close>: the conversion of an \<open>int\<close> wraps a negative value around.\<close>

definition GetRelationMsgIdFromContext :: "go_context \<Rightarrow> string \<Rightarrow> uint" where
  "GetRelationMsgIdFromContext ctx uid = word_of_int (MsgID (GetRelationDataFromContextByUID ctx uid))"

definition ToMap :: "go_context \<Rightarrow> (string \<times> pvalue) list" where
  "ToMap ctx =
     (case ctx of
        None \<Rightarrow> []
      | Some c \<Rightarrow> (case PropagateCtx c of None \<Rightarrow> [] | Some p \<Rightarrow> p))"

definition GetFromPropagateCtx :: "go_context \<Rightarrow> string \<Rightarrow> pvalue option" where
  "GetFromPropagateCtx ctx key = map_of (ToMap ctx) key"

text \<open>
  Modelled from the spec: \<open>constants.RouteKey\<close> is not among the sources; the spec names
  the key \<open>Route\<close> of the propagated-context carrier.
\<close>

definition RouteKey :: string where
  "RouteKey = ''route''"

section \<open>The producers\<close>

type_synonym payload = string

record pendingMessage =
  pm_ctx :: go_context
  pm_typ :: msg_type
  pm_route :: string
  pm_mid :: uint
  pm_payload :: payload
  pm_err :: bool

text \<open>
  The serializer, the message encoder and the packet encoder of the agent, and the helpers
  of package \<open>util\<close> that use the serializer: each is a function of its arguments.
\<close>

record codecs =
  SerializeOrRaw :: "payload \<Rightarrow> (error + bytes) outcome"
  GetErrorPayload :: "error \<Rightarrow> (error + bytes) outcome"
  GetErrorFromPayload :: "bytes \<Rightarrow> error option outcome"
  MessageEncode :: "message \<Rightarrow> (error + bytes) outcome"
  PacketEncode :: "packet_type \<Rightarrow> bytes \<Rightarrow> (error + bytes) outcome"

definition getMessageFromPendingMessage ::
    "codecs \<Rightarrow> pendingMessage \<Rightarrow> (error + message) outcome" where
  "getMessageFromPendingMessage cs pm =
     (let build = (\<lambda>payload.
            Returns (Inr \<lparr>msg_Type = pm_typ pm, msg_Data = payload, msg_Route = pm_route pm,
                          msg_ID = pm_mid pm, msg_Err = pm_err pm\<rparr>))
      in case SerializeOrRaw cs (pm_payload pm) of
           Panics \<Rightarrow> Panics
         | Blocks \<Rightarrow> Blocks
         | Returns (Inr payload) \<Rightarrow> build payload
         | Returns (Inl err) \<Rightarrow>
             (case GetErrorPayload cs err of
                Panics \<Rightarrow> Panics
              | Blocks \<Rightarrow> Blocks
              | Returns (Inl err') \<Rightarrow> Returns (Inl err')
              | Returns (Inr payload) \<Rightarrow> build payload))"

definition packetEncodeMessage :: "codecs \<Rightarrow> message \<Rightarrow> (error + bytes) outcome" where
  "packetEncodeMessage cs m =
     (case MessageEncode cs m of
        Panics \<Rightarrow> Panics
      | Blocks \<Rightarrow> Blocks
      | Returns (Inl err) \<Rightarrow> Returns (Inl err)
      | Returns (Inr em) \<Rightarrow> PacketEncode cs Data em)"

definition reportChannelSize :: "agentImpl \<Rightarrow> agentImpl" where
  "reportChannelSize a =
     (let chSendCapacity = messagesBufferSize a - int (length (chSend a));
          a1 = (if chSendCapacity = 0
                then emit (LogWarn ''chSend is at maximum capacity'') a else a)
      in fold (\<lambda>mr b.
                 (let b' = emit (ReportGauge chSendCapacity) b
                  in case mr of
                       None \<Rightarrow> b'
                     | Some err \<Rightarrow> emit (LogWarn ''failed to report chSend channel capaacity'') b'))
           (metricsReporters a1) a1)"

text \<open>
  The body of \<open>send\<close>. Its last \<open>select\<close> sends on \<open>chOrder\<close>, whose capacity is
  \<open>messagesBufferSize * 10\<close>, or receives from \<open>chDie\<close>.
\<close>

definition send_body ::
    "codecs \<Rightarrow> select_case \<Rightarrow> pendingMessage \<Rightarrow> agentImpl \<Rightarrow> error option outcome \<times> agentImpl" where
  "send_body cs pref pendingMsg a =
     (let a1 = reportChannelSize a
      in if messagesBufferSize a1 - int (length (chSend a1)) = 0 then
           (let a2 = emit (LogWarn ''the agent is will close as its network is busy'') a1
            in case Close a2 of
                 (Panics, a3) \<Rightarrow> (Panics, a3)
               | (_, a3) \<Rightarrow> (Returns None, a3))
         else
           (case getMessageFromPendingMessage cs pendingMsg of
              Panics \<Rightarrow> (Panics, a1)
            | Blocks \<Rightarrow> (Blocks, a1)
            | Returns (Inl err) \<Rightarrow> (Returns (Some err), a1)
            | Returns (Inr m) \<Rightarrow>
                (case packetEncodeMessage cs m of
                   Panics \<Rightarrow> (Panics, a1)
                 | Blocks \<Rightarrow> (Blocks, a1)
                 | Returns (Inl err) \<Rightarrow> (Returns (Some err), a1)
                 | Returns (Inr p) \<Rightarrow>
                     (case (if pm_err pendingMsg then GetErrorFromPayload cs (msg_Data m)
                            else Returns None) of
                        Panics \<Rightarrow> (Panics, a1)
                      | Blocks \<Rightarrow> (Blocks, a1)
                      | Returns e \<Rightarrow>
                          (let pWrite = \<lparr>pw_ctx = pm_ctx pendingMsg, pw_data = p, pw_err = e,
                                         pw_msg = Some m\<rparr>
                           in case go_select pref
                                  ((if int (length (chOrder a1)) < messagesBufferSize a1 * 10
                                    then [ChanCase] else []) @
                                   (if chDie a1 then [DieCase] else [])) of
                                None \<Rightarrow> (Blocks, a1)
                              | Some ChanCase \<Rightarrow>
                                  (Returns None, a1\<lparr>chOrder := chOrder a1 @ [pWrite]\<rparr>)
                              | Some _ \<Rightarrow> (Returns None, a1))))))"

text \<open>\<open>send\<close>: the deferred \<open>recover\<close> turns a panic of the body into \<open>ErrBrokenPipe\<close>.\<close>

definition send ::
    "codecs \<Rightarrow> select_case \<Rightarrow> pendingMessage \<Rightarrow> agentImpl \<Rightarrow> error option outcome \<times> agentImpl" where
  "send cs pref pendingMsg a =
     (case send_body cs pref pendingMsg a of
        (Panics, a') \<Rightarrow> (Returns (Some ErrBrokenPipe), a')
      | r \<Rightarrow> r)"

definition Push_msg ::
    "codecs \<Rightarrow> select_case \<Rightarrow> go_context \<Rightarrow> string \<Rightarrow> payload \<Rightarrow> agentImpl
     \<Rightarrow> error option outcome \<times> agentImpl" where
  "Push_msg cs pref ctx route v a =
     (if GetStatus a = StatusClosed then (Returns (Some ErrBrokenPipe), a)
      else
        (let mid = GetRelationMsgIdFromContext ctx (sess_UID (Session a))
         in send cs pref \<lparr>pm_ctx = ctx, pm_typ = Push, pm_route = route, pm_mid = mid,
                          pm_payload = v, pm_err = False\<rparr> a))"

text \<open>
  \<open>ResponseMID\<close>. \<open>isError\<close> is the variadic argument. \<open>route.(string)\<close> panics when the
  propagated value is missing or not a string; this panic is outside \<open>send\<close>.
\<close>

definition ResponseMID ::
    "codecs \<Rightarrow> select_case \<Rightarrow> go_context \<Rightarrow> uint \<Rightarrow> payload \<Rightarrow> bool list \<Rightarrow> agentImpl
     \<Rightarrow> error option outcome \<times> agentImpl" where
  "ResponseMID cs pref ctx mid v isError a =
     (let err = (case isError of [] \<Rightarrow> False | e # _ \<Rightarrow> e)
      in if GetStatus a = StatusClosed then (Returns (Some ErrBrokenPipe), a)
         else if mid \<le> 0 then (Returns (Some ErrSessionOnNotify), a)
         else
           (case GetFromPropagateCtx ctx RouteKey of
              Some (PString route) \<Rightarrow>
                send cs pref \<lparr>pm_ctx = ctx, pm_typ = Response, pm_route = route, pm_mid = mid,
                               pm_payload = v, pm_err = err\<rparr> a
            | _ \<Rightarrow> (Panics, a)))"

section \<open>Kick\<close>

text \<open>
  The wait loop \<open>for a.curMsgID <= mid { <-t.C }\<close>. The field is written by the ordering
  stage while \<open>Kick\<close> polls it: \<open>reads\<close> are the values the successive evaluations of the
  loop condition see. The loop is left (\<open>True\<close>) at the first value above \<open>mid\<close>; with no
  such value among the reads the call is still waiting (\<open>False\<close>).
\<close>

fun kick_wait :: "uint \<Rightarrow> uint list \<Rightarrow> bool" where
  "kick_wait mid [] = False"
| "kick_wait mid (c # reads) = (if c \<le> mid then kick_wait mid reads else True)"

text \<open>The closure \<open>fn\<close> of \<open>Kick\<close>: encode a Kick packet and write it to \<open>conn\<close>.\<close>

definition kick_fn :: "codecs \<Rightarrow> agentImpl \<Rightarrow> error option outcome \<times> agentImpl" where
  "kick_fn cs a =
     (case PacketEncode cs Kick [] of
        Panics \<Rightarrow> (Panics, a)
      | Blocks \<Rightarrow> (Blocks, a)
      | Returns (Inl err) \<Rightarrow> (Returns (Some err), a)
      | Returns (Inr p) \<Rightarrow> (Returns (write_result (conn a)), emit (ConnWrite p) a))"

text \<open>
  \<open>Kick\<close>. The first read of \<open>curMsgID\<close> is the field of \<open>a\<close>, the later ones are \<open>later\<close>.
\<close>

definition Kick_agent ::
    "codecs \<Rightarrow> uint list \<Rightarrow> go_context \<Rightarrow> agentImpl \<Rightarrow> error option outcome \<times> agentImpl" where
  "Kick_agent cs later ctx a =
     (let mid = GetRelationMsgIdFromContext ctx (sess_UID (Session a))
      in if GetStatus a = StatusClosed then
           (Returns None, emit (LogDebug ''can't send kick, session has closed'') a)
         else if 0 < mid then
           (if kick_wait mid (curMsgID a # later) then kick_fn cs a else (Blocks, a))
         else kick_fn cs a)"

section \<open>The heartbeat monitor\<close>

text \<open>
  Times are nanoseconds since the epoch, durations nanoseconds; \<open>Time.Unix\<close> is the number
  of whole seconds.
\<close>

definition Unix :: "int \<Rightarrow> int" where
  "Unix t = t div 1000000000"

datatype hb_step = HbContinue | HbReturn | HbBlocked

text \<open>\<open>pendingWrite{data: hbd}\<close>: the item of a heartbeat packet, with no context and no message.\<close>

definition heartbeat_item :: "bytes \<Rightarrow> pendingWrite" where
  "heartbeat_item hbd = \<lparr>pw_ctx = None, pw_data = hbd, pw_err = None, pw_msg = None\<rparr>"

text \<open>
  The body of \<open>case <-ticker.C\<close>, at time \<open>now\<close>; \<open>hbd\<close> is the pre-encoded heartbeat
  packet. The capacity of \<open>chSend\<close> is \<open>messagesBufferSize\<close>.
\<close>

definition heartbeat_tick ::
    "bytes \<Rightarrow> int \<Rightarrow> select_case \<Rightarrow> agentImpl \<Rightarrow> hb_step \<times> agentImpl" where
  "heartbeat_tick hbd now pref a =
     (let deadline = Unix (now + (- 2 * heartbeatTimeout a))
      in if lastAt a < deadline then
           (HbReturn, emit (LogDebug ''Session heartbeat timeout'') a)
         else
           (case go_select pref
                  ((if int (length (chSend a)) < messagesBufferSize a then [ChanCase] else []) @
                   (if chDie a then [DieCase] else []) @
                   (if chStopHeartbeat a then [StopCase] else [])) of
              None \<Rightarrow> (HbBlocked, a)
            | Some ChanCase \<Rightarrow>
                (HbContinue, a\<lparr>chSend := chSend a @ [heartbeat_item hbd]\<rparr>)
            | Some _ \<Rightarrow> (HbReturn, a)))"

text \<open>
  One round of the loop of \<open>heartbeat\<close>: \<open>tick\<close> is the time of a tick waiting in
  \<open>ticker.C\<close>, if there is one.
\<close>

definition heartbeat_iter ::
    "bytes \<Rightarrow> int option \<Rightarrow> select_case \<Rightarrow> select_case \<Rightarrow> agentImpl \<Rightarrow> hb_step \<times> agentImpl" where
  "heartbeat_iter hbd tick pref_outer pref_inner a =
     (case go_select pref_outer
            ((if tick \<noteq> None then [ChanCase] else []) @
             (if chDie a then [DieCase] else []) @
             (if chStopHeartbeat a then [StopCase] else [])) of
        None \<Rightarrow> (HbBlocked, a)
      | Some ChanCase \<Rightarrow>
          (case tick of None \<Rightarrow> (HbBlocked, a) | Some now \<Rightarrow> heartbeat_tick hbd now pref_inner a)
      | Some _ \<Rightarrow> (HbReturn, a))"

text \<open>
  The goroutine \<open>heartbeat\<close> over the rounds the schedule gives it; on return the deferred
  function stops the ticker and calls \<open>Close\<close>.
\<close>

fun heartbeat ::
    "bytes \<Rightarrow> (int option \<times> select_case \<times> select_case) list \<Rightarrow> agentImpl
     \<Rightarrow> unit outcome \<times> agentImpl" where
  "heartbeat hbd [] a = (Blocks, a)"
| "heartbeat hbd ((tick, pref_outer, pref_inner) # rounds) a =
     (case heartbeat_iter hbd tick pref_outer pref_inner a of
        (HbContinue, a') \<Rightarrow> heartbeat hbd rounds a'
      | (HbBlocked, a') \<Rightarrow> (Blocks, a')
      | (HbReturn, a') \<Rightarrow>
          (case Close a' of (Panics, a'') \<Rightarrow> (Panics, a'') | (_, a'') \<Rightarrow> (Returns (), a'')))"

section \<open>The handshake and heartbeat packets\<close>

text \<open>
  The map \<open>hData\<close> of \<open>hbdEncode\<close>. \<open>'f\<close> is \<open>float64\<close>: \<open>Duration.Seconds\<close>, the JSON
  encoder, the deflate compressor and the route dictionary are parameters.
\<close>

record 'f sys_data =
  sys_heartbeat :: 'f
  sys_dict :: "(string \<times> nat) list"
  sys_serializer :: string

record 'f handshake_data =
  hs_code :: int
  hs_sys :: "'f sys_data"

text \<open>
  \<open>hbdEncode\<close> assigns the globals \<open>hrd\<close> and \<open>hbd\<close>: the result is the pair
  \<open>(hrd, hbd)\<close>, and each \<open>panic(err)\<close> is \<open>Panics\<close>. The parameter \<open>timeout\<close> is the
  source's \<open>heartbeatTimeout\<close>.
\<close>

definition hbdEncode ::
    "(int \<Rightarrow> 'f) \<Rightarrow> (string \<times> nat) list \<Rightarrow> ('f handshake_data \<Rightarrow> error + bytes) \<Rightarrow>
     (bytes \<Rightarrow> error + bytes) \<Rightarrow> int \<Rightarrow> (packet_type \<Rightarrow> bytes \<Rightarrow> error + bytes) \<Rightarrow> bool \<Rightarrow>
     string \<Rightarrow> (bytes \<times> bytes) outcome" where
  "hbdEncode Seconds GetDictionary Marshal DeflateData timeout packetEncoder
      dataCompression serializerName =
     (let hData = \<lparr>hs_code = 200,
                   hs_sys = \<lparr>sys_heartbeat = Seconds timeout,
                             sys_dict = GetDictionary,
                             sys_serializer = serializerName\<rparr>\<rparr>
      in case Marshal hData of
           Inl err \<Rightarrow> Panics
         | Inr data \<Rightarrow>
             (case (if dataCompression then
                      (case DeflateData data of
                         Inl err \<Rightarrow> None
                       | Inr compressedData \<Rightarrow>
                           Some (if length compressedData < length data
                                 then compressedData else data))
                    else Some data) of
                None \<Rightarrow> Panics
              | Some data' \<Rightarrow>
                  (case packetEncoder Handshake data' of
                     Inl err \<Rightarrow> Panics
                   | Inr hrd \<Rightarrow>
                       (case packetEncoder Heartbeat [] of
                          Inl err \<Rightarrow> Panics
                        | Inr hbd \<Rightarrow> Returns (hrd, hbd)))))"

section \<open>A new agent\<close>

text \<open>
  \<open>newAgent\<close>: \<open>s\<close> is the session that \<open>sessionPool.NewSession\<close> returns and \<open>now\<close> is
  \<open>time.Now().Unix()\<close>. \<open>make\<close> panics on a negative buffer size.
\<close>

definition newAgent ::
    "net_conn \<Rightarrow> int \<Rightarrow> int \<Rightarrow> error option list \<Rightarrow> session_pool \<Rightarrow> session \<Rightarrow> int
     \<Rightarrow> agentImpl outcome" where
  "newAgent c heartbeatTime bufferSize reporters pool s now =
     (if bufferSize < 0 then Panics
      else Returns
        \<lparr>Session = s, sessionPool = pool, chDie = False, chOrder = [], chSend = [],
         chStopHeartbeat = False, chStopWrite = False, chStopOrder = False, conn = c,
         heartbeatTimeout = heartbeatTime, lastAt = now, messagesBufferSize = bufferSize,
         metricsReporters = reporters, state = StatusStart, curMsgID = 0, pushDelay = [],
         pushDelayMID = 0, trace = [ReportClients (SessionCount pool)]\<rparr>)"

section \<open>Notions used to state the properties of Close and send\<close>

text \<open>
  The callbacks of a list that \<open>onSessionClosed\<close> calls: those before the first panicking
  one, and that one.
\<close>

definition called :: "callback list \<Rightarrow> callback list" where
  "called cbs =
     takeWhile (\<lambda>c. \<not> cb_panics c) cbs @ take 1 (dropWhile (\<lambda>c. \<not> cb_panics c) cbs)"

text \<open>
  The events of \<open>onSessionClosed\<close> for the session's and the pool's callbacks, and the
  events of a \<open>Close\<close> that finds the agent not closed and \<open>chDie\<close> open.
\<close>

definition callback_events :: "callback list \<Rightarrow> callback list \<Rightarrow> event list" where
  "callback_events sess pool =
     map (\<lambda>c. CallSessionCallback (cb_name c)) (called sess) @
     (if list_ex cb_panics sess then [LogError ''pitaya/onSessionClosed'']
      else map (\<lambda>c. CallPoolCallback (cb_name c)) (called pool) @
           (if list_ex cb_panics pool then [LogError ''pitaya/onSessionClosed''] else []))"


text \<open>\<open>a'\<close> is \<open>a\<close> with more events in its trace and nothing else changed.\<close>

definition trace_ext :: "agentImpl \<Rightarrow> agentImpl \<Rightarrow> bool" where
  "trace_ext a a' = (\<exists>es. a' = a\<lparr>trace := trace a @ es\<rparr>)"

section \<open>Concrete values\<close>

text \<open>
  An agent in state Working with empty queues, one close callback on its session and one
  on the pool, and a buffer size of 1 (so \<open>chSend\<close> holds one item and \<open>chOrder\<close> ten);
  an item of a given type and id, told apart from others by the tag of its context;
  codecs that always succeed; a context that carries a request id for the user of
  \<open>agent0\<close> and a route; a pending push.
\<close>

definition agent0 :: agentImpl where
  "agent0 =
     \<lparr>Session = \<lparr>sess_ID = 1, sess_UID = ''u1'',
                  OnCloseCallbacks = [\<lparr>cb_name = ''onClose'', cb_panics = False\<rparr>]\<rparr>,
      sessionPool = \<lparr>SessionCloseCallbacks = [\<lparr>cb_name = ''poolOnClose'', cb_panics = False\<rparr>],
                      SessionCount = 1\<rparr>,
      chDie = False, chOrder = [], chSend = [],
      chStopHeartbeat = False, chStopWrite = False, chStopOrder = False,
      conn = \<lparr>write_result = None, close_result = None\<rparr>,
      heartbeatTimeout = 1000000000, lastAt = 100, messagesBufferSize = 1,
      metricsReporters = [], state = StatusWorking, curMsgID = 0, pushDelay = [],
      pushDelayMID = 0, trace = []\<rparr>"

definition item :: "msg_type \<Rightarrow> uint \<Rightarrow> nat \<Rightarrow> pendingWrite" where
  "item t i n =
     \<lparr>pw_ctx = Some \<lparr>ctx_tag = n, MsgRelation = None, PropagateCtx = None\<rparr>,
      pw_data = [], pw_err = None,
      pw_msg = Some \<lparr>msg_Type = t, msg_Data = [], msg_Route = [], msg_ID = i,
                     msg_Err = False\<rparr>\<rparr>"

definition codecs0 :: codecs where
  "codecs0 =
     \<lparr>SerializeOrRaw = (\<lambda>v. Returns (Inr [1])),
      GetErrorPayload = (\<lambda>e. Returns (Inr [2])),
      GetErrorFromPayload = (\<lambda>b. Returns (Some (ErrOther ''payload''))),
      MessageEncode = (\<lambda>m. Returns (Inr (msg_Data m))),
      PacketEncode = (\<lambda>t b. Returns (Inr ((if t = Kick then 5 else 4) # b)))\<rparr>"

definition ctx_for :: "int \<Rightarrow> go_context" where
  "ctx_for mid =
     Some \<lparr>ctx_tag = 0, MsgRelation = Some [(''u1'', \<lparr>SessID = 1, MsgID = mid\<rparr>)],
           PropagateCtx = Some [(''route'', PString ''room.join'')]\<rparr>"

definition push0 :: pendingMessage where
  "push0 = \<lparr>pm_ctx = None, pm_typ = Push, pm_route = ''room.update'', pm_mid = 0,
            pm_payload = ''x'', pm_err = False\<rparr>"

section \<open>The ordering stage: release of deferred pushes\<close>

lemma newAgent_fresh:
  "newAgent c heartbeatTime bufferSize reporters pool s now = Returns a \<Longrightarrow>
   \<not> chDie a \<and> chSend a = [] \<and> pushDelay a = [] \<and> curMsgID a = 0 \<and> pushDelayMID a = 0"
  by (auto simp: newAgent_def split: if_splits)

lemma fold_ordered_send:
  "fold ordered_send xs a = a\<lparr>chSend := chSend a @ (if chDie a then [] else xs)\<rparr>"
  by (induction xs arbitrary: a) (simp_all add: ordered_send_def)

lemma restore_eq:
  "restore k a =
     (case map_of (pushDelay a) k of
        None \<Rightarrow> a
      | Some val \<Rightarrow> a\<lparr>chSend := chSend a @ (if chDie a then [] else val),
                     pushDelay := AList.delete k (pushDelay a), pushDelayMID := 0\<rparr>)"
  by (simp add: restore_def fold_ordered_send split: option.splits)

lemma chDie_restore [simp]: "chDie (restore k a) = chDie a"
  by (simp add: restore_eq split: option.splits)

lemma delete_absent: "map_of al k = None \<Longrightarrow> AList.delete k al = al"
  by (induction al) (auto split: if_splits)

lemma curMsgID_restore [simp]: "curMsgID (restore k a) = curMsgID a"
  by (simp add: restore_eq split: option.splits)

lemma chSend_restore: "\<not> chDie a \<Longrightarrow> chSend (restore k a) = chSend a @ delayed a k"
  by (simp add: restore_eq delayed_def split: option.splits)

lemma pushDelay_restore: "pushDelay (restore k a) = AList.delete k (pushDelay a)"
  by (simp add: restore_eq delete_absent split: option.splits)

lemma delayed_restore: "k' \<noteq> k \<Longrightarrow> delayed (restore k a) k' = delayed a k'"
  by (simp add: delayed_def pushDelay_restore AList.map_of_delete)

lemma curMsgID_restore_old [simp]: "curMsgID (restore_old ks a) = curMsgID a"
  by (induction ks arbitrary: a) simp_all

lemma chDie_restore_old [simp]: "chDie (restore_old ks a) = chDie a"
  by (induction ks arbitrary: a) simp_all

lemma chSend_restore_old:
  "distinct ks \<Longrightarrow> \<not> chDie a \<Longrightarrow>
   chSend (restore_old ks a) =
     chSend a @ concat (map (delayed a) (takeWhile (\<lambda>k. k < curMsgID a) ks))"
proof (induction ks arbitrary: a)
  case Nil
  then show ?case by simp
next
  case (Cons k ks)
  show ?case
  proof (cases "curMsgID a \<le> k")
    case True
    then have "\<not> k < curMsgID a" by (simp add: not_less)
    then show ?thesis using True by simp
  next
    case False
    have same: "map (delayed (restore k a)) (takeWhile (\<lambda>j. j < curMsgID a) ks) =
                map (delayed a) (takeWhile (\<lambda>j. j < curMsgID a) ks)"
    proof (rule map_cong [OF refl])
      fix j assume "j \<in> set (takeWhile (\<lambda>j. j < curMsgID a) ks)"
      then have "j \<in> set ks" by (rule set_takeWhileD [THEN conjunct1])
      with Cons.prems have "j \<noteq> k" by auto
      then show "delayed (restore k a) j = delayed a j" by (rule delayed_restore)
    qed
    from False have step: "restore_old (k # ks) a = restore_old ks (restore k a)"
      by (simp only: restore_old.simps if_False)
    from False have lt: "k < curMsgID a" by (simp add: not_le)
    from Cons.prems have "distinct ks" and alive: "\<not> chDie (restore k a)" by simp_all
    from Cons.IH [OF this] same lt Cons.prems(2)
    show ?thesis unfolding step by (simp add: chSend_restore)
  qed
qed

lemma pushDelay_restore_old:
  "pushDelay (restore_old ks a) =
     filter (\<lambda>kv. fst kv \<notin> set (takeWhile (\<lambda>k. k < curMsgID a) ks)) (pushDelay a)"
proof (induction ks arbitrary: a)
  case Nil
  then show ?case by simp
next
  case (Cons k ks)
  show ?case
  proof (cases "curMsgID a \<le> k")
    case True
    then have "\<not> k < curMsgID a" by (simp add: not_less)
    then show ?thesis using True by simp
  next
    case False
    then have step: "restore_old (k # ks) a = restore_old ks (restore k a)"
      by (simp only: restore_old.simps if_False)
    from False have lt: "k < curMsgID a" by (simp add: not_le)
    show ?thesis unfolding step using lt
      by (auto simp: Cons.IH pushDelay_restore AList.delete_eq intro!: filter_cong)
  qed
qed

lemma takeWhile_less_sorted:
  "sorted xs \<Longrightarrow> takeWhile (\<lambda>x. x < t) xs = filter (\<lambda>x. x < t) (xs :: 'a::linorder list)"
proof (induction xs)
  case Nil
  then show ?case by simp
next
  case (Cons x xs)
  show ?case
  proof (cases "x < t")
    case True
    with Cons show ?thesis by simp
  next
    case False
    with Cons.prems have "\<forall>y\<in>set xs. \<not> y < t" by auto
    then have "filter (\<lambda>x. x < t) xs = []" by (simp add: filter_empty_conv)
    with False show ?thesis by simp
  qed
qed

lemma ordered_item_Response:
  "msg_Type m = Response \<Longrightarrow>
   ordered_item r m a =
     restore_old (sort (map fst (AList.delete (msg_ID m) (pushDelay a))))
       (restore (msg_ID m) (ordered_send r a\<lparr>curMsgID := msg_ID m\<rparr>))"
  by (simp add: ordered_item_def Let_def pushDelay_restore ordered_send_def)

lemma keys_below:
  "filter (\<lambda>k. k < M) (sort (map fst (AList.delete M al))) =
   sort (filter (\<lambda>k. k < M) (map fst al))"
proof -
  have "filter (\<lambda>k. k < M) (map fst (AList.delete M al)) = filter (\<lambda>k. k < M) (map fst al)"
    by (induction al) auto
  then show ?thesis by (simp add: filter_sort)
qed

lemma chDie_ordered_item [simp]: "chDie (ordered_item pw m a) = chDie a"
  by (simp add: ordered_item_def Let_def ordered_send_def)

lemma chSend_ordered_item_Response:
  assumes "msg_Type m = Response" and "distinct (map fst (pushDelay a))" and "\<not> chDie a"
  shows "chSend (ordered_item r m a) =
           chSend a @ [r] @ delayed a (msg_ID m) @
           concat (map (delayed a) (sort (filter (\<lambda>k. k < msg_ID m) (map fst (pushDelay a)))))"
proof -
  let ?M = "msg_ID m"
  let ?a1 = "a\<lparr>chSend := chSend a @ [r], curMsgID := ?M\<rparr>"
  let ?ks = "sort (map fst (AList.delete ?M (pushDelay a)))"
  let ?below = "sort (filter (\<lambda>k. k < ?M) (map fst (pushDelay a)))"
  have item: "ordered_item r m a = restore_old ?ks (restore ?M ?a1)"
    using assms(3) by (simp add: ordered_item_Response [OF assms(1)] ordered_send_def)
  have d: "distinct ?ks"
    using assms(2) by (simp add: AList.distinct_delete)
  have alive: "\<not> chDie ?a1" "\<not> chDie (restore ?M ?a1)"
    using assms(3) by simp_all
  have del1: "delayed ?a1 = delayed a"
    by (simp add: delayed_def fun_eq_iff)
  have same: "map (delayed (restore ?M ?a1)) ?below = map (delayed a) ?below"
    by (rule map_cong [OF refl]) (auto simp: delayed_restore del1)
  have tw: "takeWhile (\<lambda>k. k < ?M) ?ks = ?below"
    by (simp add: takeWhile_less_sorted keys_below)
  have "chSend (ordered_item r m a) =
          chSend (restore ?M ?a1) @
          concat (map (delayed (restore ?M ?a1)) (takeWhile (\<lambda>k. k < ?M) ?ks))"
    unfolding item using chSend_restore_old [OF d alive(2)] by simp
  also have "\<dots> = chSend (restore ?M ?a1) @ concat (map (delayed a) ?below)"
    by (simp only: tw same)
  also have "chSend (restore ?M ?a1) = chSend ?a1 @ delayed ?a1 ?M"
    by (rule chSend_restore [OF alive(1)])
  finally show ?thesis by (simp add: del1)
qed

lemma pushDelay_ordered_item_Response:
  assumes "msg_Type m = Response"
  shows "pushDelay (ordered_item r m a) = filter (\<lambda>kv. msg_ID m < fst kv) (pushDelay a)"
proof -
  let ?M = "msg_ID m"
  let ?a1 = "ordered_send r a\<lparr>curMsgID := ?M\<rparr>"
  let ?ks = "sort (map fst (AList.delete ?M (pushDelay a)))"
  have tw: "takeWhile (\<lambda>k. k < ?M) ?ks = sort (filter (\<lambda>k. k < ?M) (map fst (pushDelay a)))"
    by (simp add: takeWhile_less_sorted keys_below)
  have "pushDelay (ordered_item r m a) =
          filter (\<lambda>kv. fst kv \<notin> set (takeWhile (\<lambda>k. k < ?M) ?ks))
            (AList.delete ?M (pushDelay a))"
    by (simp add: ordered_item_Response [OF assms] pushDelay_restore_old pushDelay_restore
        ordered_send_def)
  also have "\<dots> = filter (\<lambda>kv. ?M < fst kv) (pushDelay a)"
    by (simp only: tw) (auto simp: AList.delete_eq intro!: filter_cong)
  finally show ?thesis .
qed

lemma curMsgID_ordered_item:
  "curMsgID (ordered_item pw m a) = (if msg_Type m = Response then msg_ID m else curMsgID a)"
  by (simp add: ordered_item_def Let_def ordered_send_def)

lemma forwarded_afterI:
  "r \<notin> set A \<Longrightarrow> p \<notin> set A \<Longrightarrow> forwarded_after r p (A @ r # B @ p # C)"
  by (simp add: forwarded_after_def takeWhile_append dropWhile_append)

lemma mset_update_delayed:
  "mset (concat (map snd (AList.update k ((case map_of al k of None \<Rightarrow> [] | Some v \<Rightarrow> v) @ [p]) al))) =
   mset (concat (map snd al)) + {#p#}"
  by (induction al) auto

lemma mset_delete_delayed:
  "distinct (map fst al) \<Longrightarrow> map_of al k = Some v \<Longrightarrow>
   mset (concat (map snd al)) = mset v + mset (concat (map snd (AList.delete k al)))"
proof (induction al)
  case Nil
  then show ?case by simp
next
  case (Cons kv al)
  show ?case
  proof (cases "fst kv = k")
    case True
    with Cons.prems have "map_of al k = None"
      by (cases kv) (auto simp: map_of_eq_None_iff)
    then have "AList.delete k al = al" by (rule delete_absent)
    with True Cons.prems show ?thesis by (cases kv) auto
  next
    case False
    with Cons show ?thesis by (cases kv) auto
  qed
qed

lemma keys_restore:
  "distinct (map fst (pushDelay a)) \<Longrightarrow> distinct (map fst (pushDelay (restore k a)))"
  by (simp add: pushDelay_restore AList.distinct_delete)

lemma mset_restore:
  "\<not> chDie a \<Longrightarrow> distinct (map fst (pushDelay a)) \<Longrightarrow>
   mset (chSend (restore k a)) + mset (all_delayed (restore k a)) =
   mset (chSend a) + mset (all_delayed a)"
proof (cases "map_of (pushDelay a) k")
  case None
  then show ?thesis by (simp add: restore_eq)
next
  case (Some v)
  assume "\<not> chDie a" and "distinct (map fst (pushDelay a))"
  from mset_delete_delayed [OF this(2) Some] Some this(1)
  show ?thesis by (simp add: restore_eq all_delayed_def)
qed

lemma mset_restore_old:
  "\<not> chDie a \<Longrightarrow> distinct (map fst (pushDelay a)) \<Longrightarrow>
   mset (chSend (restore_old ks a)) + mset (all_delayed (restore_old ks a)) =
   mset (chSend a) + mset (all_delayed a)"
proof (induction ks arbitrary: a)
  case Nil
  then show ?case by simp
next
  case (Cons k ks)
  from Cons.prems have "\<not> chDie (restore k a)"
    and "distinct (map fst (pushDelay (restore k a)))"
    by (simp_all add: keys_restore)
  from Cons.IH [OF this] mset_restore [OF Cons.prems, of k]
  show ?case by simp
qed

lemma keys_ordered_item:
  "distinct (map fst (pushDelay a)) \<Longrightarrow> distinct (map fst (pushDelay (ordered_item p m a)))"
proof (cases "msg_Type m = Response")
  case True
  assume "distinct (map fst (pushDelay a))"
  then show ?thesis
    by (simp add: pushDelay_ordered_item_Response [OF True] distinct_map_filter)
next
  case False
  assume "distinct (map fst (pushDelay a))"
  with False show ?thesis
    by (simp add: ordered_item_def Let_def ordered_send_def AList.distinct_update)
qed

lemma mset_ordered_item:
  assumes "distinct (map fst (pushDelay a))" and alive: "\<not> chDie a"
  shows "mset (chSend (ordered_item p m a)) + mset (all_delayed (ordered_item p m a)) =
         mset (chSend a) + mset (all_delayed a) + {#p#}"
proof (cases "msg_Type m = Response")
  case True
  let ?a1 = "ordered_send p a\<lparr>curMsgID := msg_ID m\<rparr>"
  have k1: "distinct (map fst (pushDelay ?a1))" and l1: "\<not> chDie ?a1"
    using assms by (simp_all add: ordered_send_def)
  from l1 have l2: "\<not> chDie (restore (msg_ID m) ?a1)" by simp
  have "mset (chSend (ordered_item p m a)) + mset (all_delayed (ordered_item p m a)) =
        mset (chSend (restore (msg_ID m) ?a1)) + mset (all_delayed (restore (msg_ID m) ?a1))"
    unfolding ordered_item_Response [OF True]
    by (rule mset_restore_old [OF l2]) (rule keys_restore [OF k1])
  also have "\<dots> = mset (chSend ?a1) + mset (all_delayed ?a1)"
    by (rule mset_restore [OF l1 k1])
  finally show ?thesis using alive by (simp add: ordered_send_def all_delayed_def)
next
  case False
  with alive show ?thesis
    by (simp add: ordered_item_def Let_def ordered_send_def all_delayed_def delayed_def
        mset_update_delayed)
qed


lemma pipeline_inv_item:
  assumes "pipeline_inv a (x # rest)"
  shows "pipeline_inv (ordered_item x m a) rest"
proof -
  from assms have k: "distinct (map fst (pushDelay a))"
    and d: "distinct (chSend a @ all_delayed a @ x # rest)"
    and l: "\<not> chDie a"
    by (simp_all add: pipeline_inv_def)
  have "mset (chSend (ordered_item x m a) @ all_delayed (ordered_item x m a) @ rest) =
        mset (chSend a @ all_delayed a @ x # rest)"
    using mset_ordered_item [OF k l, of x m] by simp
  from mset_eq_imp_distinct_iff [OF this] d keys_ordered_item [OF k, of x m] l
  show ?thesis by (simp add: pipeline_inv_def)
qed

lemma ordered_run_append:
  "ordered_run (xs @ ys) a =
     (case ordered_run xs a of None \<Rightarrow> None | Some a' \<Rightarrow> ordered_run ys a')"
  by (induction xs arbitrary: a) (simp_all split: option.splits)

lemma pipeline_inv_run:
  "pipeline_inv a (xs @ rest) \<Longrightarrow> ordered_run xs a = Some a' \<Longrightarrow> pipeline_inv a' rest"
proof (induction xs arbitrary: a)
  case Nil
  then show ?case by simp
next
  case (Cons x xs)
  from Cons.prems(2) obtain m where m: "pw_msg x = Some m"
    and run: "ordered_run xs (ordered_item x m a) = Some a'"
    by (auto simp: ordered_step_def split: option.splits)
  from Cons.prems(1) have "pipeline_inv (ordered_item x m a) (xs @ rest)"
    by (simp add: pipeline_inv_item)
  from Cons.IH [OF this run] show ?case .
qed

lemma ordered_run_total:
  "\<forall>x\<in>set xs. pw_msg x \<noteq> None \<Longrightarrow> \<exists>a'. ordered_run xs a = Some a'"
  by (induction xs arbitrary: a) (auto simp: ordered_step_def split: option.splits)

lemma chSend_restore_old_prefix: "\<exists>zs. chSend (restore_old ks a) = chSend a @ zs"
proof (induction ks arbitrary: a)
  case Nil
  then show ?case by simp
next
  case (Cons k ks)
  have "\<exists>zs. chSend (restore k a) = chSend a @ zs"
    by (simp add: restore_eq split: option.splits)
  with Cons.IH [of "restore k a"] show ?case by auto
qed

lemma chSend_ordered_item_prefix: "\<exists>zs. chSend (ordered_item x m a) = chSend a @ zs"
proof (cases "msg_Type m = Response")
  case True
  from chSend_restore_old_prefix
  obtain zs where "chSend (ordered_item x m a) =
      chSend (restore (msg_ID m) (ordered_send x a\<lparr>curMsgID := msg_ID m\<rparr>)) @ zs"
    unfolding ordered_item_Response [OF True] by blast
  then show ?thesis by (simp add: restore_eq ordered_send_def split: option.splits)
next
  case False
  then show ?thesis by (simp add: ordered_item_def Let_def ordered_send_def)
qed

lemma chSend_run_prefix:
  "ordered_run xs a = Some a' \<Longrightarrow> \<exists>zs. chSend a' = chSend a @ zs"
proof (induction xs arbitrary: a)
  case Nil
  then show ?case by simp
next
  case (Cons x xs)
  from Cons.prems obtain m where run: "ordered_run xs (ordered_item x m a) = Some a'"
    by (auto simp: ordered_step_def split: option.splits)
  from Cons.IH [OF run] chSend_ordered_item_prefix [of x m a]
  show ?case by auto
qed

lemma map_of_filter_above:
  "R < M \<Longrightarrow> map_of (filter (\<lambda>kv. R < fst kv) al) M = map_of al (M :: uint)"
  by (induction al) auto

lemma deferred_item:
  assumes "curMsgID a < M" and "msg_Type m = Push" and "msg_ID m = M"
  shows "chSend (ordered_item p m a) = chSend a"
    and "delayed (ordered_item p m a) M = delayed a M @ [p]"
    and "curMsgID (ordered_item p m a) = curMsgID a"
proof -
  from assms(1) have "0 < M" by (rule le_less_trans [OF word_zero_le])
  with assms have eq: "ordered_item p m a =
      a\<lparr>pushDelay := AList.update M (delayed a M @ [p]) (pushDelay a), pushDelayMID := M\<rparr>"
    by (simp add: ordered_item_def Let_def)
  show "chSend (ordered_item p m a) = chSend a" by (simp add: eq)
  show "delayed (ordered_item p m a) M = delayed a M @ [p]"
    by (simp add: eq delayed_def AList.update_conv')
  show "curMsgID (ordered_item p m a) = curMsgID a" by (simp add: eq)
qed

lemma delayed_update:
  "pushDelay a' = AList.update k (delayed a k @ [x]) (pushDelay a) \<Longrightarrow>
   delayed a' M = (if M = k then delayed a M @ [x] else delayed a M)"
  by (simp add: delayed_def AList.update_conv')

lemma still_deferred_item:
  assumes "curMsgID a < M" and "p \<in> set (delayed a M)"
    and "msg_Type m = Response \<longrightarrow> msg_ID m < M"
  shows "p \<in> set (delayed (ordered_item x m a) M) \<and> curMsgID (ordered_item x m a) < M"
proof (cases "msg_Type m = Response")
  case True
  with assms(3) have lt: "msg_ID m < M" by simp
  have "delayed (ordered_item x m a) M = delayed a M"
    by (simp add: delayed_def pushDelay_ordered_item_Response [OF True] map_of_filter_above [OF lt])
  with assms(2) lt True show ?thesis by (simp add: curMsgID_ordered_item)
next
  case False
  have "pushDelay (ordered_item x m a) = pushDelay a \<or>
        (\<exists>k. pushDelay (ordered_item x m a) = AList.update k (delayed a k @ [x]) (pushDelay a))"
    using False by (auto simp: ordered_item_def Let_def ordered_send_def)
  then have "p \<in> set (delayed (ordered_item x m a) M)"
  proof
    assume "pushDelay (ordered_item x m a) = pushDelay a"
    with assms(2) show ?thesis by (simp add: delayed_def)
  next
    assume "\<exists>k. pushDelay (ordered_item x m a) = AList.update k (delayed a k @ [x]) (pushDelay a)"
    then obtain k where "pushDelay (ordered_item x m a) = AList.update k (delayed a k @ [x]) (pushDelay a)"
      by blast
    from delayed_update [OF this, of M] assms(2) show ?thesis by (simp split: if_splits)
  qed
  with assms(1) False show ?thesis by (simp add: curMsgID_ordered_item)
qed

lemma still_deferred_run:
  "curMsgID a < M \<Longrightarrow> p \<in> set (delayed a M) \<Longrightarrow>
   \<forall>x\<in>set xs. \<forall>m. pw_msg x = Some m \<longrightarrow> msg_Type m = Response \<longrightarrow> msg_ID m < M \<Longrightarrow>
   ordered_run xs a = Some a' \<Longrightarrow>
   p \<in> set (delayed a' M)"
proof (induction xs arbitrary: a)
  case Nil
  then show ?case by simp
next
  case (Cons x xs)
  from Cons.prems(4) obtain m where m: "pw_msg x = Some m"
    and run: "ordered_run xs (ordered_item x m a) = Some a'"
    by (auto simp: ordered_step_def split: option.splits)
  from Cons.prems(3) m have "msg_Type m = Response \<longrightarrow> msg_ID m < M" by simp
  from still_deferred_item [OF Cons.prems(1,2) this]
  have 1: "p \<in> set (delayed (ordered_item x m a) M)" and 2: "curMsgID (ordered_item x m a) < M"
    by blast+
  from Cons.prems(3) have 3: "\<forall>x\<in>set xs. \<forall>m. pw_msg x = Some m \<longrightarrow> msg_Type m = Response \<longrightarrow> msg_ID m < M"
    by simp
  from Cons.IH [OF 2 1 3 run] show ?case .
qed

lemma delayed_in_all_delayed: "p \<in> set (delayed a k) \<Longrightarrow> p \<in> set (all_delayed a)"
proof -
  assume p: "p \<in> set (delayed a k)"
  then obtain v where v: "map_of (pushDelay a) k = Some v"
    by (cases "map_of (pushDelay a) k") (simp_all add: delayed_def)
  then have "(k, v) \<in> set (pushDelay a)" by (rule map_of_SomeD)
  moreover from p v have "p \<in> set v" by (simp add: delayed_def)
  ultimately show ?thesis by (force simp: all_delayed_def)
qed


lemmas ordered_eval =
  ordered_step_def ordered_item_def ordered_send_def restore_def delayed_def item_def
  agent0_def

text \<open>
  Claim C2, as the code has it. When the stage, with \<open>chDie\<close> open, processes a Response
  with id \<open>M\<close>, it forwards the Response, then the items of bucket \<open>M\<close>, then the buckets
  with a key below \<open>M\<close> in ascending key order, each bucket in insertion order; the
  buckets that remain are those with a key above \<open>M\<close>, and \<open>curMsgID\<close> is \<open>M\<close>. (Bucket
  \<open>M\<close> comes first, not last.)
\<close>

theorem response_release:
  assumes "pw_msg r = Some m" and "msg_Type m = Response"
    and "distinct (map fst (pushDelay a))" and "\<not> chDie a"
  shows "\<exists>a'. ordered_step r a = Some a' \<and>
           chSend a' =
             chSend a @ [r] @ delayed a (msg_ID m) @
             concat (map (delayed a) (sort (filter (\<lambda>k. k < msg_ID m) (map fst (pushDelay a))))) \<and>
           pushDelay a' = filter (\<lambda>kv. msg_ID m < fst kv) (pushDelay a) \<and>
           curMsgID a' = msg_ID m"
  using assms
  by (simp add: ordered_step_def chSend_ordered_item_Response pushDelay_ordered_item_Response
      curMsgID_ordered_item)

theorem response_release_witness:
  "\<exists>a'. ordered_step (item Response 5 4)
            (agent0\<lparr>pushDelay := [(2, [item Push 2 1]), (5, [item Push 5 2]), (3, [item Push 3 3]),
                                   (7, [item Push 7 5])]\<rparr>) = Some a' \<and>
        chSend a' = [item Response 5 4, item Push 5 2, item Push 2 1, item Push 3 3] \<and>
        pushDelay a' = [(7, [item Push 7 5])] \<and>
        curMsgID a' = 5"
  using response_release [where r = "item Response 5 4"
      and a = "agent0\<lparr>pushDelay := [(2, [item Push 2 1]), (5, [item Push 5 2]),
                                      (3, [item Push 3 3]), (7, [item Push 7 5])]\<rparr>"
      and m = "\<lparr>msg_Type = Response, msg_Data = [], msg_Route = [], msg_ID = 5, msg_Err = False\<rparr>"]
  by (simp add: item_def agent0_def delayed_def)

text \<open>
  With pushes deferred under the ids 2, 5 and 3, the Response 5 is followed by bucket 5,
  then bucket 2, then bucket 3: not by the buckets 2, 3, 5 in ascending order.
\<close>

theorem response_release_counterexample:
  "map_option chSend
     (ordered_run [item Push 2 1, item Push 5 2, item Push 3 3, item Response 5 4] agent0) =
     Some [item Response 5 4, item Push 5 2, item Push 2 1, item Push 3 3] \<and>
   [item Response 5 4, item Push 5 2, item Push 2 1, item Push 3 3] \<noteq>
   [item Response 5 4, item Push 2 1, item Push 3 3, item Push 5 2]"
  by (simp add: ordered_eval)

section \<open>The ordering stage: \<open>curMsgID\<close>\<close>

text \<open>
  Claim C3, as the code has it. The stage assigns \<open>curMsgID = m.ID\<close> for every Response
  it processes and leaves \<open>curMsgID\<close> alone for every other item: a Response whose id is
  below \<open>curMsgID\<close> lowers it.
\<close>

theorem curMsgID_step:
  "map_option curMsgID (ordered_step pWrite a) =
   map_option (\<lambda>m. if msg_Type m = Response then msg_ID m else curMsgID a) (pw_msg pWrite)"
  by (simp add: ordered_step_def curMsgID_ordered_item split: option.splits)

theorem curMsgID_step_witness:
  "map_option curMsgID (ordered_step (item Response 3 1) (agent0\<lparr>curMsgID := 5\<rparr>)) = Some 3 \<and>
   map_option curMsgID (ordered_step (item Push 7 1) (agent0\<lparr>curMsgID := 5\<rparr>)) = Some 5"
  using curMsgID_step [of "item Response 3 1" "agent0\<lparr>curMsgID := 5\<rparr>"]
    curMsgID_step [of "item Push 7 1" "agent0\<lparr>curMsgID := 5\<rparr>"]
  by (simp add: item_def)

text \<open>After Response 5 the value is 5; the late Response 3 sets it to 3.\<close>

theorem curMsgID_monotone_counterexample:
  "map_option curMsgID (ordered_run [item Response 5 1] agent0) = Some 5 \<and>
   map_option curMsgID (ordered_run [item Response 5 1, item Response 3 2] agent0) = Some 3"
  by (simp add: ordered_eval)

section \<open>The ordering stage: a push behind its response\<close>

text \<open>
  Claim C1, as the code has it. Run the stage, with \<open>chDie\<close> open, on distinct items from
  empty queues. Let a
  Push with id \<open>M\<close> be processed while \<open>curMsgID < M\<close>, and let a Response with id \<open>M\<close>
  follow it with only Responses of ids below \<open>M\<close> in between. Then the Push is forwarded
  after that Response: it is not in \<open>chSend\<close> before the Response and it is behind it.
\<close>

theorem ordering_contract:
  assumes fresh: "\<not> chDie a" "chSend a = []" "pushDelay a = []"
    and dist: "distinct (pre @ p # mid @ r # post)"
    and msgs: "\<forall>x\<in>set (mid @ post). pw_msg x \<noteq> None"
    and push: "pw_msg p = Some mp" "msg_Type mp = Push" "msg_ID mp = M"
    and resp: "pw_msg r = Some mr" "msg_Type mr = Response" "msg_ID mr = M"
    and a1: "ordered_run pre a = Some a1" and cur1: "curMsgID a1 < M"
    and mid: "\<forall>x\<in>set mid. \<forall>m. pw_msg x = Some m \<longrightarrow> msg_Type m = Response \<longrightarrow> msg_ID m < M"
  shows "\<exists>a'. ordered_run (pre @ p # mid @ r # post) a = Some a' \<and>
              forwarded_after r p (chSend a')"
proof -
  let ?a2 = "ordered_item p mp a1"
  from msgs obtain a3 where a3: "ordered_run mid ?a2 = Some a3"
    using ordered_run_total [of mid ?a2] by auto
  let ?a4 = "ordered_item r mr a3"
  from msgs obtain a5 where a5: "ordered_run post ?a4 = Some a5"
    using ordered_run_total [of post ?a4] by auto
  have run: "ordered_run (pre @ p # mid @ r # post) a = Some a5"
    by (simp add: ordered_run_append a1 a3 a5 ordered_step_def push resp)
  have "pipeline_inv a (pre @ p # mid @ r # post)"
    using fresh dist by (simp add: pipeline_inv_def all_delayed_def)
  from pipeline_inv_run [OF this a1] have "pipeline_inv a1 (p # mid @ r # post)" .
  then have "pipeline_inv ?a2 (mid @ r # post)" by (rule pipeline_inv_item)
  from pipeline_inv_run [OF this a3] have inv3: "pipeline_inv a3 (r # post)" .
  have "p \<in> set (delayed ?a2 M)" and "curMsgID ?a2 < M"
    using deferred_item [OF cur1 push(2,3), of p] cur1 by simp_all
  from still_deferred_run [OF this(2,1) mid a3] have p3: "p \<in> set (delayed a3 M)" .
  then have "p \<in> set (all_delayed a3)" by (rule delayed_in_all_delayed)
  with inv3 have notin: "p \<notin> set (chSend a3)" "r \<notin> set (chSend a3)"
    by (auto simp: pipeline_inv_def)
  from inv3 have k3: "distinct (map fst (pushDelay a3))" and l3: "\<not> chDie a3"
    by (simp_all add: pipeline_inv_def)
  from p3 obtain B C where split: "delayed a3 M = B @ p # C"
    by (auto simp: in_set_conv_decomp)
  from chSend_run_prefix [OF a5] obtain zs where zs: "chSend a5 = chSend ?a4 @ zs" by blast
  define D where "D = C @ concat (map (delayed a3) (sort (filter (\<lambda>k. k < M) (map fst (pushDelay a3))))) @ zs"
  have out: "chSend a5 = chSend a3 @ r # B @ p # D"
    by (simp add: D_def zs chSend_ordered_item_Response [OF resp(2) k3 l3] resp(3) split)
  from notin have "forwarded_after r p (chSend a3 @ r # B @ p # D)"
    by (intro forwarded_afterI)
  then have "forwarded_after r p (chSend a5)" by (simp only: out)
  with run show ?thesis by blast
qed


theorem ordering_contract_witness:
  "\<exists>a'. ordered_run ([item Response 2 1] @ item Push 5 2 # [item Push 0 3, item Response 4 4] @
            item Response 5 5 # [item Push 5 6]) agent0 = Some a' \<and>
        forwarded_after (item Response 5 5) (item Push 5 2) (chSend a')"
proof (rule ordering_contract [where M = 5
      and mp = "\<lparr>msg_Type = Push, msg_Data = [], msg_Route = [], msg_ID = 5, msg_Err = False\<rparr>"
      and mr = "\<lparr>msg_Type = Response, msg_Data = [], msg_Route = [], msg_ID = 5, msg_Err = False\<rparr>"])
  show "ordered_run [item Response 2 1] agent0 = Some (agent0\<lparr>chSend := [item Response 2 1], curMsgID := 2\<rparr>)"
    by (simp add: ordered_eval)
qed (simp_all add: item_def agent0_def)

text \<open>
  A Push with id 3 that is processed after Response 5 and before Response 3 is forwarded
  when it is processed, before Response 3.
\<close>

theorem ordering_contract_counterexample:
  "map_option chSend
     (ordered_run [item Response 5 1, item Push 3 2, item Response 3 3] agent0) =
     Some [item Response 5 1, item Push 3 2, item Response 3 3] \<and>
   \<not> forwarded_after (item Response 3 3) (item Push 3 2)
       [item Response 5 1, item Push 3 2, item Response 3 3]"
  by (simp add: ordered_eval forwarded_after_def)

section \<open>Close\<close>

lemma run_callbacks_eq:
  "run_callbacks ev cbs a =
     (list_ex cb_panics cbs, a\<lparr>trace := trace a @ map (\<lambda>c. ev (cb_name c)) (called cbs)\<rparr>)"
proof (induction cbs arbitrary: a)
  case Nil
  show ?case by (simp add: called_def)
next
  case (Cons c cbs)
  show ?case
  proof (cases "cb_panics c")
    case True
    then show ?thesis by (simp add: called_def emit_def)
  next
    case False
    have "called (c # cbs) = c # called cbs" using False by (simp add: called_def)
    with False show ?thesis by (simp add: Cons emit_def)
  qed
qed

lemma called_no_panic: "\<not> list_ex cb_panics cbs \<Longrightarrow> called cbs = cbs"
  by (induction cbs) (simp_all add: called_def)

lemma onSessionClosed_eq:
  "onSessionClosed s a =
     a\<lparr>trace := trace a @
          callback_events (OnCloseCallbacks s) (SessionCloseCallbacks (sessionPool a))\<rparr>"
  by (simp add: onSessionClosed_def run_callbacks_eq callback_events_def emit_def)

lemma trace_ext_refl: "trace_ext a a"
  unfolding trace_ext_def by (rule exI [of _ "[]"]) simp

lemma trace_ext_emit: "trace_ext a (emit e a)"
  unfolding trace_ext_def emit_def by (rule exI [of _ "[e]"]) simp

lemma trace_ext_trans: "trace_ext a b \<Longrightarrow> trace_ext b c \<Longrightarrow> trace_ext a c"
proof -
  assume "trace_ext a b" and "trace_ext b c"
  then obtain es es' where "b = a\<lparr>trace := trace a @ es\<rparr>" and "c = b\<lparr>trace := trace b @ es'\<rparr>"
    unfolding trace_ext_def by blast
  then have "c = a\<lparr>trace := trace a @ (es @ es')\<rparr>" by simp
  then show ?thesis unfolding trace_ext_def by (rule exI)
qed

lemma Close_effect:
  assumes "GetStatus a \<noteq> StatusClosed"
    and "chDie a \<or> \<not> (chStopWrite a \<or> chStopOrder a \<or> chStopHeartbeat a)"
  shows "\<exists>es b. Close a = (Returns (close_result (conn a)), b) \<and>
           state b = StatusClosed \<and> chDie b \<and> chOrder b = chOrder a \<and> chSend b = chSend a \<and>
           trace b = trace a @ StoreStatus StatusClosed # es @ [ConnClose]"
proof (cases "chDie a")
  case True
  with assms(1) show ?thesis
    by (simp add: Close_def GetStatus_def SetStatus_def emit_def)
next
  case False
  with assms show ?thesis
    by (simp add: Close_def GetStatus_def SetStatus_def emit_def close_chan_def
        onSessionClosed_eq)
qed




section \<open>send: shedding\<close>

lemma fold_report_trace:
  "trace_ext b (fold (\<lambda>mr b.
                 (let b' = emit (ReportGauge c) b
                  in case mr of
                       None \<Rightarrow> b'
                     | Some err \<Rightarrow> emit (LogWarn w) b')) rs b)"
proof (induction rs arbitrary: b)
  case Nil
  show ?case by (simp add: trace_ext_refl)
next
  case (Cons mr rs)
  let ?b1 = "(let b' = emit (ReportGauge c) b
                  in case mr of
                       None \<Rightarrow> b'
                     | Some err \<Rightarrow> emit (LogWarn w) b')"
  have "trace_ext b ?b1"
    by (cases mr) (auto simp: Let_def intro: trace_ext_emit trace_ext_trans)
  from trace_ext_trans [OF this Cons [of ?b1]] show ?case by simp
qed

lemma reportChannelSize_trace: "trace_ext a (reportChannelSize a)"
proof -
  let ?a1 = "if messagesBufferSize a - int (length (chSend a)) = 0
             then emit (LogWarn ''chSend is at maximum capacity'') a else a"
  have "trace_ext a ?a1" by (simp add: trace_ext_refl trace_ext_emit)
  from trace_ext_trans [OF this fold_report_trace [of ?a1]]
  show ?thesis unfolding reportChannelSize_def Let_def .
qed

text \<open>
  Claim C4, as the code has it. The capacity that \<open>send\<close> looks at is that of \<open>chSend\<close>
  (\<open>messagesBufferSize - len(chSend)\<close>), not that of \<open>chOrder\<close>. When it is zero on an
  agent that is not closed, \<open>send\<close> logs the warning, calls \<open>Close\<close> and returns nil; the
  agent it leaves does not depend on the message or the codecs, and \<open>chOrder\<close> and
  \<open>chSend\<close> are as before. (A stop channel is closed only by \<open>Close\<close>, after \<open>chDie\<close>:
  the third hypothesis.)
\<close>

theorem send_sheds:
  assumes full: "messagesBufferSize a - int (length (chSend a)) = 0"
    and open_: "GetStatus a \<noteq> StatusClosed"
    and chans: "chDie a \<or> \<not> (chStopWrite a \<or> chStopOrder a \<or> chStopHeartbeat a)"
  shows "\<exists>a'. send cs pref pendingMsg a = (Returns None, a') \<and>
           a' = snd (Close (emit (LogWarn ''the agent is will close as its network is busy'')
                      (reportChannelSize a))) \<and>
           GetStatus a' = StatusClosed \<and> chOrder a' = chOrder a \<and> chSend a' = chSend a \<and>
           LogWarn ''the agent is will close as its network is busy'' \<in> set (trace a') \<and>
           last (trace a') = ConnClose"
proof -
  let ?w = "LogWarn ''the agent is will close as its network is busy''"
  from reportChannelSize_trace [of a] obtain es1
    where a1: "reportChannelSize a = a\<lparr>trace := trace a @ es1\<rparr>"
    unfolding trace_ext_def by blast
  let ?a2 = "emit ?w (reportChannelSize a)"
  have a2: "?a2 = a\<lparr>trace := trace a @ es1 @ [?w]\<rparr>" by (simp add: a1 emit_def)
  from open_ chans have "GetStatus ?a2 \<noteq> StatusClosed"
    and "chDie ?a2 \<or> \<not> (chStopWrite ?a2 \<or> chStopOrder ?a2 \<or> chStopHeartbeat ?a2)"
    by (simp_all add: a2 GetStatus_def)
  from Close_effect [OF this] obtain es b
    where cl: "Close ?a2 = (Returns (close_result (conn ?a2)), b)"
      and b: "state b = StatusClosed" "chOrder b = chOrder ?a2" "chSend b = chSend ?a2"
        "trace b = trace ?a2 @ StoreStatus StatusClosed # es @ [ConnClose]"
    by blast
  from full have "send_body cs pref pendingMsg a = (Returns None, b)"
    by (simp add: send_body_def Let_def cl) (simp add: a1)
  then have "send cs pref pendingMsg a = (Returns None, b)" by (simp add: send_def)
  with cl b show ?thesis by (simp add: a2 GetStatus_def)
qed

theorem send_sheds_witness:
  "\<exists>a'. send codecs0 ChanCase push0 (agent0\<lparr>chSend := [item Response 1 0]\<rparr>) = (Returns None, a') \<and>
        GetStatus a' = StatusClosed \<and> chOrder a' = [] \<and> last (trace a') = ConnClose"
  using send_sheds [of "agent0\<lparr>chSend := [item Response 1 0]\<rparr>" codecs0 ChanCase push0]
  by (simp add: agent0_def GetStatus_def)

text \<open>
  With a buffer size of 1, ten items in \<open>chOrder\<close> (no room left) and none in \<open>chSend\<close>,
  \<open>send\<close> does not close the agent: it encodes the message and blocks on \<open>chOrder\<close>.
\<close>

theorem send_orderQ_full_counterexample:
  "messagesBufferSize (agent0\<lparr>chOrder := replicate 10 (item Push 1 0)\<rparr>) * 10 -
     int (length (chOrder (agent0\<lparr>chOrder := replicate 10 (item Push 1 0)\<rparr>))) = 0 \<and>
   GetStatus (agent0\<lparr>chOrder := replicate 10 (item Push 1 0)\<rparr>) = StatusWorking \<and>
   send codecs0 ChanCase push0 (agent0\<lparr>chOrder := replicate 10 (item Push 1 0)\<rparr>) =
     (Blocks, agent0\<lparr>chOrder := replicate 10 (item Push 1 0)\<rparr>)"
  by (simp add: agent0_def GetStatus_def send_def send_body_def reportChannelSize_def
      getMessageFromPendingMessage_def packetEncodeMessage_def codecs0_def push0_def
      go_select_def)

section \<open>ResponseMID on a notify\<close>

text \<open>
  Claim C8. On an agent that is not closed, \<open>ResponseMID\<close> with \<open>mid = 0\<close> returns
  \<open>ErrSessionOnNotify\<close> and leaves the agent, its queues included, as it was.
\<close>

theorem ResponseMID_notify:
  "GetStatus a \<noteq> StatusClosed \<Longrightarrow>
   ResponseMID cs pref ctx 0 v isError a = (Returns (Some ErrSessionOnNotify), a)"
  by (simp add: ResponseMID_def)

theorem ResponseMID_notify_witness:
  "ResponseMID codecs0 ChanCase (ctx_for 0) 0 ''ok'' [] agent0 =
     (Returns (Some ErrSessionOnNotify), agent0)"
  using ResponseMID_notify [of agent0 codecs0 ChanCase "ctx_for 0" "''ok''" "[]"]
  by (simp add: agent0_def GetStatus_def)

section \<open>Kick\<close>

text \<open>
  Claim C10. On a closed agent \<open>Kick\<close> returns nil; it adds a debug line to the log and
  nothing else, so nothing is written to \<open>conn\<close>. \<open>Push\<close> and \<open>ResponseMID\<close> return
  \<open>ErrBrokenPipe\<close> there.
\<close>

theorem Kick_closed:
  "GetStatus a = StatusClosed \<Longrightarrow>
   Kick_agent cs later ctx a =
     (Returns None, a\<lparr>trace := trace a @ [LogDebug ''can't send kick, session has closed'']\<rparr>) \<and>
   Push_msg cs pref ctx route v a = (Returns (Some ErrBrokenPipe), a) \<and>
   ResponseMID cs pref ctx mid v isError a = (Returns (Some ErrBrokenPipe), a)"
  by (simp add: Kick_agent_def Push_msg_def ResponseMID_def emit_def)

theorem Kick_closed_witness:
  "Kick_agent codecs0 [] (ctx_for 4) (agent0\<lparr>state := StatusClosed\<rparr>) =
     (Returns None, agent0\<lparr>state := StatusClosed,
        trace := [LogDebug ''can't send kick, session has closed'']\<rparr>) \<and>
   Push_msg codecs0 ChanCase (ctx_for 4) ''room.update'' ''x'' (agent0\<lparr>state := StatusClosed\<rparr>) =
     (Returns (Some ErrBrokenPipe), agent0\<lparr>state := StatusClosed\<rparr>)"
  using Kick_closed [of "agent0\<lparr>state := StatusClosed\<rparr>" codecs0 "[]" "ctx_for 4" ChanCase
      "''room.update''" "''x''" 4 "[]"]
  by (simp add: agent0_def GetStatus_def)

lemma kick_wait_iff: "kick_wait mid reads = (\<exists>c\<in>set reads. mid < c)"
  by (induction reads) (auto simp: not_le)

lemma kick_wait_equal: "kick_wait mid (replicate n mid) = False"
  by (simp add: kick_wait_iff)

text \<open>
  Claim C5 on the code. The wait loop of \<open>Kick\<close> runs while \<open>curMsgID <= mid\<close>. With the
  request id 4 in the context and \<open>curMsgID = 4\<close>, the value the ordering stage sets when
  it forwards Response 4, \<open>Kick\<close> keeps waiting and writes nothing, whereas the claim has it
  write the Kick packet as soon as \<open>curMsgID >= mid\<close>. It writes once a read shows a
  larger value (here 5).
\<close>

theorem Kick_waits_at_equal:
  "map_option curMsgID
     (ordered_run [item Push 4 1, item Push 4 2, item Response 4 3] agent0) = Some 4 \<and>
   Kick_agent codecs0 [4, 4, 4] (ctx_for 4) (agent0\<lparr>curMsgID := 4\<rparr>) =
     (Blocks, agent0\<lparr>curMsgID := 4\<rparr>) \<and>
   Kick_agent codecs0 [4, 4, 5] (ctx_for 4) (agent0\<lparr>curMsgID := 4\<rparr>) =
     (Returns None, agent0\<lparr>curMsgID := 4, trace := [ConnWrite [5]]\<rparr>)"
  by (simp add: ordered_eval Kick_agent_def kick_fn_def codecs0_def ctx_for_def GetStatus_def
      GetRelationMsgIdFromContext_def GetRelationDataFromContextByUID_def
      GetRelationDataFromContext_def emit_def)

section \<open>The heartbeat monitor\<close>








section \<open>The handshake response\<close>

text \<open>
  Claim C9. When the JSON encoder, the compressor (if compression is enabled) and the
  packet encoder succeed, \<open>hrd\<close> is the Handshake packet of the JSON encoding of
  \<open>{code: 200, sys: {heartbeat: seconds, dict: dictionary, serializer: name}}\<close>, replaced
  by its deflated form exactly when compression is enabled and the deflated form is
  strictly shorter.
\<close>

theorem hbdEncode_handshake:
  assumes "Marshal \<lparr>hs_code = 200,
             hs_sys = \<lparr>sys_heartbeat = Seconds timeout, sys_dict = dict,
                       sys_serializer = name\<rparr>\<rparr> = Inr json"
    and "compress \<longrightarrow> DeflateData json = Inr z"
    and "packetEncoder Handshake (if compress \<and> length z < length json then z else json) = Inr hrd"
    and "packetEncoder Heartbeat [] = Inr hbd"
  shows "hbdEncode Seconds dict Marshal DeflateData timeout packetEncoder compress name =
           Returns (hrd, hbd)"
  using assms by (auto simp: hbdEncode_def)

theorem hbdEncode_handshake_witness:
  "hbdEncode (\<lambda>d. d div 1000000000) [(''room.join'', 1)] (\<lambda>h. Inr [1, 2, 3, 4])
     (\<lambda>b. Inr (take 2 b)) 30000000000 (\<lambda>t b. Inr ((if t = Handshake then 1 else 3) # b))
     True ''json'' = Returns ([1, 1, 2], [3]) \<and>
   hbdEncode (\<lambda>d. d div 1000000000) [(''room.join'', 1)] (\<lambda>h. Inr [1, 2, 3, 4])
     (\<lambda>b. Inr (b @ [0])) 30000000000 (\<lambda>t b. Inr ((if t = Handshake then 1 else 3) # b))
     True ''json'' = Returns ([1, 1, 2, 3, 4], [3]) \<and>
   hbdEncode (\<lambda>d. d div 1000000000) [(''room.join'', 1)] (\<lambda>h. Inr [1, 2, 3, 4])
     (\<lambda>b. Inr (take 2 b)) 30000000000 (\<lambda>t b. Inr ((if t = Handshake then 1 else 3) # b))
     False ''json'' = Returns ([1, 1, 2, 3, 4], [3])"
  using
    hbdEncode_handshake [where Seconds = "\<lambda>d. d div 1000000000" and dict = "[(''room.join'', 1)]"
      and Marshal = "\<lambda>h. Inr [1, 2, 3, 4]" and DeflateData = "\<lambda>b. Inr (take 2 b)"
      and timeout = 30000000000
      and packetEncoder = "\<lambda>t b. Inr ((if t = Handshake then 1 else 3) # b)"
      and compress = True and name = "''json''" and json = "[1, 2, 3, 4]" and z = "[1, 2]"
      and hrd = "[1, 1, 2]" and hbd = "[3]"]
    hbdEncode_handshake [where Seconds = "\<lambda>d. d div 1000000000" and dict = "[(''room.join'', 1)]"
      and Marshal = "\<lambda>h. Inr [1, 2, 3, 4]" and DeflateData = "\<lambda>b. Inr (b @ [0])"
      and timeout = 30000000000
      and packetEncoder = "\<lambda>t b. Inr ((if t = Handshake then 1 else 3) # b)"
      and compress = True and name = "''json''" and json = "[1, 2, 3, 4]" and z = "[1, 2, 3, 4, 0]"
      and hrd = "[1, 1, 2, 3, 4]" and hbd = "[3]"]
    hbdEncode_handshake [where Seconds = "\<lambda>d. d div 1000000000" and dict = "[(''room.join'', 1)]"
      and Marshal = "\<lambda>h. Inr [1, 2, 3, 4]" and DeflateData = "\<lambda>b. Inr (take 2 b)"
      and timeout = 30000000000
      and packetEncoder = "\<lambda>t b. Inr ((if t = Handshake then 1 else 3) # b)"
      and compress = False and name = "''json''" and json = "[1, 2, 3, 4]" and z = "[]"
      and hrd = "[1, 1, 2, 3, 4]" and hbd = "[3]"]
  by simp

end
